theory Spec2Isabelle
  imports Main "HOL-Library.Word"
begin

section \<open>Values that cross the library boundary\<close>

text \<open>
  A C++ \<^verbatim>\<open>double\<close> is only ever copied by the sensor (never computed with), so it is
  kept as its 64-bit pattern; \<^verbatim>\<open>std::size_t\<close> is a 64-bit word.
\<close>

type_synonym double = "64 word"

text \<open>\<^verbatim>\<open>carla::client::Timestamp\<close>: the two fields \<^verbatim>\<open>TickRssSensor\<close> reads.\<close>

record Timestamp =
  frame :: "64 word"
  elapsed_seconds :: double

text \<open>\<^verbatim>\<open>WorldSnapshot\<close>, of which the tick closure calls \<^verbatim>\<open>GetTimestamp()\<close> only.\<close>

record WorldSnapshot =
  GetTimestamp :: Timestamp

text \<open>
  Objects of the client library that the sensor only hands on (to \<^verbatim>\<open>checkObjects\<close> or
  into the response) are opaque handles.
\<close>

datatype World = World nat
datatype ActorList = ActorList nat
datatype Actor = Actor nat
datatype MapPtr = MapPtr nat
datatype Transform = Transform nat
datatype RssDynamics = RssDynamics nat

text \<open>
  The response vocabulary of the external library (\<^verbatim>\<open>::ad_rss::state\<close>), as named in the
  \<^verbatim>\<open>case\<close> labels of lines 79--105, and the sensor's own
  (\<^verbatim>\<open>carla::sensor::data\<close>), as named on the right of the assignments there.
\<close>

datatype ad_rss_LongitudinalResponse =
  ad_rss_Longitudinal_None | ad_rss_Longitudinal_BrakeMinCorrect | ad_rss_Longitudinal_BrakeMin

datatype ad_rss_LateralResponse =
  ad_rss_Lateral_None | ad_rss_Lateral_BrakeMin

datatype LongitudinalResponse =
  Longitudinal_None | Longitudinal_BrakeMinCorrect | Longitudinal_BrakeMin

datatype LateralResponse =
  Lateral_None | Lateral_BrakeMin

text \<open>\<^verbatim>\<open>::ad_rss::state::ProperResponse\<close>: the three fields the switches read.\<close>

record ProperResponse =
  longitudinalResponse :: ad_rss_LongitudinalResponse
  lateralResponseRight :: ad_rss_LateralResponse
  lateralResponseLeft :: ad_rss_LateralResponse

text \<open>
  Modelled from the spec: the external library's \<^verbatim>\<open>ProperResponse\<close> declaration is not
  among the sources. Section 4.2 says what a default-constructed verdict holds:
  ``all responses = none''.
\<close>

definition ProperResponse_default :: ProperResponse where
  "ProperResponse_default =
     \<lparr>longitudinalResponse = ad_rss_Longitudinal_None,
      lateralResponseRight = ad_rss_Lateral_None,
      lateralResponseLeft = ad_rss_Lateral_None\<rparr>"

text \<open>
  \<^verbatim>\<open>carla::sensor::data::RssResponse\<close>, one field per constructor argument of line 106, in
  that order. The acceleration restriction and the ego velocity are records of the external
  library that the sensor default-constructs, passes by reference and copies, never reading
  a field: they stay abstract (\<open>'acc\<close>, \<open>'vel\<close>).

  Modelled from the spec: those two declarations are not among the sources; section 4.2 says
  a default-constructed one holds ``zero-valued physical quantities'', hence the sort
  \<open>zero\<close> and the value \<open>0\<close> for \<^verbatim>\<open>AccelerationRestriction accelerationRestriction;\<close>
  and \<^verbatim>\<open>Velocity egoVelocity;\<close>.
\<close>

record ('acc, 'vel) RssResponse =
  rss_frame :: "64 word"
  rss_elapsed_seconds :: double
  rss_transform :: Transform
  rss_success :: bool
  rss_longitudinal_response :: LongitudinalResponse
  rss_lateral_response_right :: LateralResponse
  rss_lateral_response_left :: LateralResponse
  rss_acceleration_restriction :: 'acc
  rss_ego_velocity :: 'vel

section \<open>Abnormal termination\<close>

text \<open>
  A call either returns (\<open>Inr\<close>) or ends abnormally (\<open>Inl\<close>). The collaborators raise
  through \<^verbatim>\<open>throw_exception\<close>, as line 33 does, with a \<^verbatim>\<open>std::exception\<close>;
  \<open>std_exception w\<close> carries its \<^verbatim>\<open>what()\<close>. Dereferencing a null pointer is no
  exception: no handler sees it.
\<close>

datatype fault = std_exception string | null_dereference

section \<open>The sensor object\<close>

text \<open>
  Modelled from the spec: \<^verbatim>\<open>RssCheck\<close> is declared and implemented outside the sources.
  Section 3 gives it two dynamics profiles (ego, other) and section 4.5 ``simple accessors''
  for them.
\<close>

record RssCheck =
  egoVehicleDynamics :: RssDynamics
  otherVehicleDynamics :: RssDynamics

text \<open>
  The members of \<^verbatim>\<open>RssSensor\<close> the methods use. \<^verbatim>\<open>GetDisplayId()\<close> and
  \<^verbatim>\<open>GetParent()\<close> are inherited getters, kept as fields; a null pointer is \<open>None\<close>;
  \<open>processing_lock\<close> is \<open>True\<close> while the mutex is held.
\<close>

record RssSensor =
  display_id :: string
  parent :: "Actor option"
  visualize_results :: bool
  is_listening :: bool
  map_ptr :: "MapPtr option"
  mRssCheck :: "RssCheck option"
  processing_lock :: bool

text \<open>
  Modelled from the spec: the class declaration (\<^verbatim>\<open>RssSensor.h\<close>) is not among the
  sources. Section 3 says the session state is created on \<^verbatim>\<open>Listen\<close> and section 4.5
  that \<^verbatim>\<open>Listen\<close> captures the map and constructs the evaluation backend, so a sensor on
  which \<^verbatim>\<open>Listen\<close> was never called is idle, unlocked and holds neither.
\<close>

definition RssSensor_new :: "string \<Rightarrow> Actor option \<Rightarrow> RssSensor" where
  "RssSensor_new name p =
     \<lparr>display_id = name, parent = p, visualize_results = False, is_listening = False,
      map_ptr = None, mRssCheck = None, processing_lock = False\<rparr>"

section \<open>The collaborators\<close>

text \<open>
  What the calls into the simulator and into the safety library answer at one moment.
  \<^verbatim>\<open>checkObjects\<close> writes three out-parameters and returns the flag; here it returns the
  four together. \<open>RssCheck_new\<close> is what \<^verbatim>\<open>std::make_shared<RssCheck>()\<close> constructs.
\<close>

record ('acc, 'vel) Env =
  GetWorld :: "fault + World"
  GetMap :: "World \<Rightarrow> fault + MapPtr option"
  GetActors :: "World \<Rightarrow> fault + ActorList"
  Filter :: "ActorList \<Rightarrow> string \<Rightarrow> fault + ActorList"
  checkObjects :: "RssCheck \<Rightarrow> Timestamp \<Rightarrow> World \<Rightarrow> ActorList \<Rightarrow> Actor option \<Rightarrow>
     MapPtr option \<Rightarrow> bool \<Rightarrow> fault + (bool \<times> ProperResponse \<times> 'acc \<times> 'vel)"
  GetTransform :: "fault + Transform"
  RssCheck_new :: RssCheck

section \<open>Observable events\<close>

text \<open>
  Calls whose effect lies outside the sensor are recorded, in order: the two log calls, the
  write to \<^verbatim>\<open>std::cout\<close>, the operations on the mutex (with \<^verbatim>\<open>try_lock\<close>'s result) and
  the invocation of a user callback with its argument. A callback is known by a number.
\<close>

type_synonym CallbackFunctionType = nat

datatype ('acc, 'vel) Event =
    LogError string
  | LogDebug string
  | Cout string
  | TryLock bool
  | Unlock
  | Invoke CallbackFunctionType "('acc, 'vel) RssResponse"

section \<open>\<^verbatim>\<open>RssSensor::TickRssSensor\<close>\<close>

text \<open>
  The mutex. \<^verbatim>\<open>try_lock\<close> never blocks: it takes a free mutex and answers \<open>True\<close>, and
  answers \<open>False\<close> on a held one. \<^verbatim>\<open>unlock\<close> frees the mutex whoever holds it (C++
  leaves unlocking a mutex one does not own undefined; the event stays in the trace).
\<close>

definition try_lock ::
  "RssSensor \<times> ('acc, 'vel) Event list \<Rightarrow> bool \<times> RssSensor \<times> ('acc, 'vel) Event list" where
  "try_lock \<sigma> =
     (case \<sigma> of (s, tr) \<Rightarrow>
        if processing_lock s then (False, s, tr @ [TryLock False])
        else (True, s\<lparr>processing_lock := True\<rparr>, tr @ [TryLock True]))"

definition unlock ::
  "RssSensor \<times> ('acc, 'vel) Event list \<Rightarrow> RssSensor \<times> ('acc, 'vel) Event list" where
  "unlock \<sigma> = (case \<sigma> of (s, tr) \<Rightarrow> (s\<lparr>processing_lock := False\<rparr>, tr @ [Unlock]))"

definition cout ::
  "string \<Rightarrow> RssSensor \<times> ('acc, 'vel) Event list \<Rightarrow> RssSensor \<times> ('acc, 'vel) Event list" where
  "cout w \<sigma> = (case \<sigma> of (s, tr) \<Rightarrow> (s, tr @ [Cout w]))"

text \<open>Lines 66--72: the calls made while the mutex is held.\<close>

definition guarded_calls ::
  "('acc, 'vel) Env \<Rightarrow> Timestamp \<Rightarrow> RssSensor \<Rightarrow>
     fault + (bool \<times> ProperResponse \<times> 'acc \<times> 'vel)" where
  "guarded_calls env timestamp s =
     (case GetWorld env of
        Inl f \<Rightarrow> Inl f
      | Inr world \<Rightarrow>
     (case GetActors env world of
        Inl f \<Rightarrow> Inl f
      | Inr actors \<Rightarrow>
     (case Filter env actors ''vehicle.*'' of
        Inl f \<Rightarrow> Inl f
      | Inr vehicles \<Rightarrow>
     (case mRssCheck s of
        None \<Rightarrow> Inl null_dereference
      | Some c \<Rightarrow>
          checkObjects env c timestamp world vehicles (parent s) (map_ptr s)
            (visualize_results s)))))"

text \<open>Lines 79--89 and 90--105: the three switches.\<close>

fun translate_longitudinal :: "ad_rss_LongitudinalResponse \<Rightarrow> LongitudinalResponse" where
  "translate_longitudinal ad_rss_Longitudinal_None = Longitudinal_None"
| "translate_longitudinal ad_rss_Longitudinal_BrakeMinCorrect = Longitudinal_BrakeMinCorrect"
| "translate_longitudinal ad_rss_Longitudinal_BrakeMin = Longitudinal_BrakeMin"

fun translate_lateral :: "ad_rss_LateralResponse \<Rightarrow> LateralResponse" where
  "translate_lateral ad_rss_Lateral_None = Lateral_None"
| "translate_lateral ad_rss_Lateral_BrakeMin = Lateral_BrakeMin"

definition translate ::
  "ProperResponse \<Rightarrow> LongitudinalResponse \<times> LateralResponse \<times> LateralResponse" where
  "translate response =
     (translate_longitudinal (longitudinalResponse response),
      translate_lateral (lateralResponseRight response),
      translate_lateral (lateralResponseLeft response))"

text \<open>
  Lines 61--108, the body of the \<^verbatim>\<open>try\<close>. The state (sensor and trace) reached when an
  exception leaves the body is kept: the handler runs in it.
\<close>

definition try_body ::
  "('acc::zero, 'vel::zero) Env \<Rightarrow> Timestamp \<Rightarrow> RssSensor \<times> ('acc, 'vel) Event list \<Rightarrow>
     (fault + ('acc, 'vel) RssResponse) \<times> RssSensor \<times> ('acc, 'vel) Event list" where
  "try_body env timestamp \<sigma>0 =
     (let result = False;
          response = ProperResponse_default;
          accelerationRestriction = 0;
          egoVelocity = 0;
          (acquired, \<sigma>1) = try_lock \<sigma>0
      in
      case
        (if acquired then
           (case guarded_calls env timestamp (fst \<sigma>1) of
              Inl f \<Rightarrow> (Inl f, \<sigma>1)
            | Inr checked \<Rightarrow> (Inr checked, unlock \<sigma>1))
         else (Inr (result, response, accelerationRestriction, egoVelocity), \<sigma>1))
      of
        (Inl f, \<sigma>2) \<Rightarrow> (Inl f, \<sigma>2)
      | (Inr (result, response, accelerationRestriction, egoVelocity), \<sigma>2) \<Rightarrow>
          (case translate response of
             (longitudinalResponse', lateralResponseRight', lateralResponseLeft') \<Rightarrow>
          (case GetTransform env of
             Inl f \<Rightarrow> (Inl f, \<sigma>2)
           | Inr transform \<Rightarrow>
               (Inr \<lparr>rss_frame = frame timestamp,
                     rss_elapsed_seconds = elapsed_seconds timestamp,
                     rss_transform = transform,
                     rss_success = result,
                     rss_longitudinal_response = longitudinalResponse',
                     rss_lateral_response_right = lateralResponseRight',
                     rss_lateral_response_left = lateralResponseLeft',
                     rss_acceleration_restriction = accelerationRestriction,
                     rss_ego_velocity = egoVelocity\<rparr>, \<sigma>2))))"

text \<open>
  The whole method: the body, and the handler of lines 109--114 for a \<^verbatim>\<open>std::exception\<close>.
  The result is the returned pointer (\<open>None\<close> for \<^verbatim>\<open>nullptr\<close>), the sensor afterwards
  and the events of this call.
\<close>

definition TickRssSensor ::
  "('acc::zero, 'vel::zero) Env \<Rightarrow> Timestamp \<Rightarrow> RssSensor \<Rightarrow>
     fault + (('acc, 'vel) RssResponse option \<times> RssSensor \<times> ('acc, 'vel) Event list)" where
  "TickRssSensor env timestamp s =
     (case try_body env timestamp (s, []) of
        (Inr data, s', tr) \<Rightarrow> Inr (Some data, s', tr)
      | (Inl (std_exception w), \<sigma>) \<Rightarrow>
          (case unlock (cout w \<sigma>) of (s', tr) \<Rightarrow> Inr (None, s', tr))
      | (Inl null_dereference, \<sigma>) \<Rightarrow> Inl null_dereference)"

section \<open>The dynamics accessors\<close>





section \<open>The episode: live objects and tick subscriptions\<close>

text \<open>
  The closure of lines 46--54 captures the callback and a weak pointer to the sensor. The
  weak pointer is an address into the store of live objects: \<^verbatim>\<open>weak_self.lock()\<close> yields
  the object while it lives and null once it is destroyed (an address is not used again).
\<close>

record Closure =
  cb :: CallbackFunctionType
  weak_self :: nat

text \<open>
  The store of live sensors, the handlers registered with \<^verbatim>\<open>RegisterOnTickEvent\<close> (in
  order of registration) and the events so far.
\<close>

record ('acc, 'vel) System =
  objects :: "nat \<rightharpoonup> RssSensor"
  on_tick :: "Closure list"
  events :: "('acc, 'vel) Event list"

text \<open>
  Lines 26--57. The exception of line 33, and one raised by \<^verbatim>\<open>GetWorld().GetMap()\<close>, leave
  the method before anything is assigned: \<open>Inl\<close> stands for the unchanged system.
  \<^verbatim>\<open>DEBUG_ASSERT\<close> is empty in a release build. A method called on no live object is a
  null dereference.
\<close>

definition Listen ::
  "('acc, 'vel) Env \<Rightarrow> nat \<Rightarrow> CallbackFunctionType \<Rightarrow> ('acc, 'vel) System \<Rightarrow>
     fault + ('acc, 'vel) System" where
  "Listen env self callback st =
     (case objects st self of
        None \<Rightarrow> Inl null_dereference
      | Some s \<Rightarrow>
          if is_listening s then
            Inr (st\<lparr>events := events st @ [LogError (display_id s @ '': already listening'')]\<rparr>)
          else if parent s = None then
            Inl (std_exception (display_id s @ '': not attached to vehicle''))
          else
            (case GetWorld env of
               Inl f \<Rightarrow> Inl f
             | Inr world \<Rightarrow>
            (case GetMap env world of
               Inl f \<Rightarrow> Inl f
             | Inr m \<Rightarrow>
                 Inr (st\<lparr>objects := (objects st)(self \<mapsto>
                            s\<lparr>map_ptr := m,
                              mRssCheck := Some (RssCheck_new env),
                              is_listening := True\<rparr>),
                         on_tick := on_tick st @ [\<lparr>cb = callback, weak_self = self\<rparr>],
                         events := events st @
                           [LogDebug (display_id s @ '': subscribing to tick event'')]\<rparr>))))"

text \<open>Lines 117--120.\<close>

definition Stop :: "nat \<Rightarrow> ('acc, 'vel) System \<Rightarrow> fault + ('acc, 'vel) System" where
  "Stop self st =
     (case objects st self of
        None \<Rightarrow> Inl null_dereference
      | Some s \<Rightarrow> Inr (st\<lparr>objects := (objects st)(self \<mapsto> s\<lparr>is_listening := False\<rparr>)\<rparr>))"

text \<open>Lines 46--54: one run of a registered closure on a snapshot.\<close>

definition tick_closure ::
  "('acc::zero, 'vel::zero) Env \<Rightarrow> Closure \<Rightarrow> WorldSnapshot \<Rightarrow> ('acc, 'vel) System \<Rightarrow>
     fault + ('acc, 'vel) System" where
  "tick_closure env c snapshot st =
     (case objects st (weak_self c) of
        None \<Rightarrow> Inr st
      | Some self \<Rightarrow>
          (case TickRssSensor env (GetTimestamp snapshot) self of
             Inl f \<Rightarrow> Inl f
           | Inr (data, self', tr) \<Rightarrow>
               (let st' = st\<lparr>objects := (objects st)(weak_self c \<mapsto> self'),
                              events := events st @ tr\<rparr>
                in case data of
                     None \<Rightarrow> Inr st'
                   | Some d \<Rightarrow> Inr (st'\<lparr>events := events st' @ [Invoke (cb c) d]\<rparr>))))"

text \<open>
  Modelled from the spec: the event source is not among the sources. Section 6 gives it
  \<^verbatim>\<open>RegisterTickEvent(handler)\<close>, each handler receiving the per-tick snapshot; section 5
  says the ticks come one after the other, in order. A tick runs every registered handler.
\<close>

fun OnTick ::
  "('acc::zero, 'vel::zero) Env \<Rightarrow> WorldSnapshot \<Rightarrow> Closure list \<Rightarrow> ('acc, 'vel) System \<Rightarrow>
     fault + ('acc, 'vel) System" where
  "OnTick env snapshot [] st = Inr st"
| "OnTick env snapshot (c # cs) st =
     (case tick_closure env c snapshot st of
        Inl f \<Rightarrow> Inl f
      | Inr st' \<Rightarrow> OnTick env snapshot cs st')"

definition tick ::
  "('acc::zero, 'vel::zero) Env \<Rightarrow> WorldSnapshot \<Rightarrow> ('acc, 'vel) System \<Rightarrow>
     fault + ('acc, 'vel) System" where
  "tick env snapshot st = OnTick env snapshot (on_tick st) st"

fun deliver ::
  "(('acc::zero, 'vel::zero) Env \<times> WorldSnapshot) list \<Rightarrow> ('acc, 'vel) System \<Rightarrow>
     fault + ('acc, 'vel) System" where
  "deliver [] st = Inr st"
| "deliver ((env, snapshot) # rest) st =
     (case tick env snapshot st of
        Inl f \<Rightarrow> Inl f
      | Inr st' \<Rightarrow> deliver rest st')"

text \<open>
  The same on the sensor alone: consecutive calls of \<^verbatim>\<open>TickRssSensor\<close>, each in the world
  of its tick, collecting the returned pointers.
\<close>

fun run_ticks ::
  "(('acc::zero, 'vel::zero) Env \<times> Timestamp) list \<Rightarrow> RssSensor \<Rightarrow>
     fault + (('acc, 'vel) RssResponse option list \<times> RssSensor)" where
  "run_ticks [] s = Inr ([], s)"
| "run_ticks ((env, timestamp) # rest) s =
     (case TickRssSensor env timestamp s of
        Inl f \<Rightarrow> Inl f
      | Inr (data, s', tr) \<Rightarrow>
          (case run_ticks rest s' of
             Inl f \<Rightarrow> Inl f
           | Inr (ds, s'') \<Rightarrow> Inr (data # ds, s'')))"

text \<open>The callback invocations in a trace, in order.\<close>

fun invocations ::
  "('acc, 'vel) Event list \<Rightarrow> (CallbackFunctionType \<times> ('acc, 'vel) RssResponse) list" where
  "invocations [] = []"
| "invocations (Invoke f d # es) = (f, d) # invocations es"
| "invocations (e # es) = invocations es"


section \<open>Concrete scenarios\<close>

text \<open>
  A world in which every call returns; \<^verbatim>\<open>checkObjects\<close> answers the verdict of the
  example of section 8 of the specification. The abstract physical records are integers here.
\<close>

definition env_ok :: "(int, int) Env" where
  "env_ok =
     \<lparr>GetWorld = Inr (World 0),
      GetMap = (\<lambda>w. Inr (Some (MapPtr 0))),
      GetActors = (\<lambda>w. Inr (ActorList 0)),
      Filter = (\<lambda>actors pattern. Inr (ActorList 1)),
      checkObjects = (\<lambda>c timestamp world vehicles p m visualize.
         Inr (True,
              \<lparr>longitudinalResponse = ad_rss_Longitudinal_BrakeMin,
               lateralResponseRight = ad_rss_Lateral_None,
               lateralResponseLeft = ad_rss_Lateral_BrakeMin\<rparr>, 5, 3)),
      GetTransform = Inr (Transform 0),
      RssCheck_new = \<lparr>egoVehicleDynamics = RssDynamics 0, otherVehicleDynamics = RssDynamics 1\<rparr>\<rparr>"

text \<open>The same world with \<^verbatim>\<open>checkObjects\<close> raising.\<close>

definition env_check_throws :: "(int, int) Env" where
  "env_check_throws =
     env_ok\<lparr>checkObjects := (\<lambda>c timestamp world vehicles p m visualize.
       Inl (std_exception ''checkObjects failed''))\<rparr>"

text \<open>The same world with the pose read of line 106 raising.\<close>

definition env_pose_throws :: "(int, int) Env" where
  "env_pose_throws = env_ok\<lparr>GetTransform := Inl (std_exception ''actor destroyed'')\<rparr>"

text \<open>Frame 42 at 1.4 seconds (the bit pattern of the double 1.4).\<close>

definition timestamp_42 :: Timestamp where
  "timestamp_42 = \<lparr>frame = 42, elapsed_seconds = 0x3FF6666666666666\<rparr>"

definition snapshot_42 :: WorldSnapshot where
  "snapshot_42 = \<lparr>GetTimestamp = timestamp_42\<rparr>"

definition timestamp_43 :: Timestamp where
  "timestamp_43 = \<lparr>frame = 43, elapsed_seconds = 0x3FF8000000000000\<rparr>"

definition snapshot_43 :: WorldSnapshot where
  "snapshot_43 = \<lparr>GetTimestamp = timestamp_43\<rparr>"

text \<open>A sensor attached to a vehicle, as it is after a successful \<^verbatim>\<open>Listen\<close> in \<open>env_ok\<close>.\<close>

definition sensor_listening :: RssSensor where
  "sensor_listening =
     \<lparr>display_id = ''sensor.other.rss'', parent = Some (Actor 1), visualize_results = False,
      is_listening = True, map_ptr = Some (MapPtr 0),
      mRssCheck = Some \<lparr>egoVehicleDynamics = RssDynamics 0, otherVehicleDynamics = RssDynamics 1\<rparr>,
      processing_lock = False\<rparr>"

text \<open>An episode holding one sensor, at address 0, on which nothing was called yet.\<close>

definition system_new :: "(int, int) System" where
  "system_new =
     \<lparr>objects = [0 \<mapsto> RssSensor_new ''sensor.other.rss'' (Some (Actor 1))],
      on_tick = [], events = []\<rparr>"

text \<open>
  The episode after \<^verbatim>\<open>Listen\<close> with callback 7 on that sensor: one subscription.
\<close>

definition system_listening :: "(int, int) System" where
  "system_listening =
     \<lparr>objects = [0 \<mapsto> sensor_listening], on_tick = [\<lparr>cb = 7, weak_self = 0\<rparr>],
      events = [LogDebug ''sensor.other.rss: subscribing to tick event'']\<rparr>"

section \<open>The translation\<close>

text \<open>
  C6. The translation of a verdict's three responses is total and deterministic (a function
  on all 3 x 2 x 2 = 12 combinations), sends each longitudinal and each lateral variant to
  the variant of the same name, right and left independently, and is injective, so the 12
  combinations have 12 distinct images.
\<close>

theorem translate_total_injective:
  "translate \<lparr>longitudinalResponse = l, lateralResponseRight = r, lateralResponseLeft = f\<rparr> =
     (translate_longitudinal l, translate_lateral r, translate_lateral f)
   \<and> translate_longitudinal ad_rss_Longitudinal_None = Longitudinal_None
   \<and> translate_longitudinal ad_rss_Longitudinal_BrakeMinCorrect = Longitudinal_BrakeMinCorrect
   \<and> translate_longitudinal ad_rss_Longitudinal_BrakeMin = Longitudinal_BrakeMin
   \<and> translate_lateral ad_rss_Lateral_None = Lateral_None
   \<and> translate_lateral ad_rss_Lateral_BrakeMin = Lateral_BrakeMin
   \<and> inj translate
   \<and> card (range translate) = 12"
proof -
  have inj: "inj translate"
  proof (rule injI)
    fix x y :: ProperResponse
    assume "translate x = translate y"
    then show "x = y"
      by (cases x, cases y)
        (auto simp: translate_def elim!: translate_longitudinal.elims translate_lateral.elims)
  qed
  have longs: "(UNIV :: ad_rss_LongitudinalResponse set) =
      {ad_rss_Longitudinal_None, ad_rss_Longitudinal_BrakeMinCorrect, ad_rss_Longitudinal_BrakeMin}"
    using ad_rss_LongitudinalResponse.exhaust by auto
  have lats: "(UNIV :: ad_rss_LateralResponse set) = {ad_rss_Lateral_None, ad_rss_Lateral_BrakeMin}"
    using ad_rss_LateralResponse.exhaust by auto
  let ?mk = "\<lambda>(l, r, f). \<lparr>longitudinalResponse = l, lateralResponseRight = r,
    lateralResponseLeft = f\<rparr>"
  have univ: "(UNIV :: ProperResponse set) = ?mk ` (UNIV \<times> UNIV \<times> UNIV)"
  proof -
    have "x \<in> ?mk ` (UNIV \<times> UNIV \<times> UNIV)" for x :: ProperResponse
    proof (rule image_eqI)
      show "x = ?mk (longitudinalResponse x, lateralResponseRight x, lateralResponseLeft x)"
        by simp
    qed simp
    then show ?thesis by blast
  qed
  have "inj ?mk"
    by (rule injI) auto
  then have "card (UNIV :: ProperResponse set) =
      card ((UNIV :: ad_rss_LongitudinalResponse set) \<times> (UNIV :: ad_rss_LateralResponse set)
        \<times> (UNIV :: ad_rss_LateralResponse set))"
    unfolding univ by (rule card_image [OF inj_on_subset]) simp
  also have "\<dots> = 12"
    by (simp add: longs lats card_cartesian_product)
  finally have "card (range translate) = 12"
    by (simp add: card_image [OF inj])
  with inj show ?thesis
    by (simp add: translate_def)
qed

section \<open>One call of \<^verbatim>\<open>TickRssSensor\<close>, path by path\<close>

lemmas tick_defs = TickRssSensor_def try_body_def try_lock_def unlock_def cout_def

lemma guarded_calls_lock:
  "guarded_calls env ts (s\<lparr>processing_lock := b\<rparr>) = guarded_calls env ts s"
  by (simp add: guarded_calls_def split: sum.splits option.splits)

lemma unlock_free: "\<not> processing_lock s \<Longrightarrow> s\<lparr>processing_lock := False\<rparr> = s"
  by (cases s) simp

text \<open>The mutex is free and a guarded call raises: the handler prints and unlocks.\<close>

lemma TickRssSensor_fault:
  assumes "\<not> processing_lock s" and "guarded_calls env ts s = Inl (std_exception w)"
  shows "TickRssSensor env ts s = Inr (None, s, [TryLock True, Cout w, Unlock])"
  using assms by (simp add: tick_defs guarded_calls_lock unlock_free)

text \<open>The mutex is free and every call returns.\<close>

lemma TickRssSensor_ok:
  assumes "\<not> processing_lock s"
    and "guarded_calls env ts s = Inr (res, resp, acc, vel)"
    and "GetTransform env = Inr pose"
  shows "TickRssSensor env ts s =
    Inr (Some \<lparr>rss_frame = frame ts, rss_elapsed_seconds = elapsed_seconds ts,
           rss_transform = pose, rss_success = res,
           rss_longitudinal_response = translate_longitudinal (longitudinalResponse resp),
           rss_lateral_response_right = translate_lateral (lateralResponseRight resp),
           rss_lateral_response_left = translate_lateral (lateralResponseLeft resp),
           rss_acceleration_restriction = acc, rss_ego_velocity = vel\<rparr>, s,
         [TryLock True, Unlock])"
  using assms by (simp add: tick_defs guarded_calls_lock unlock_free translate_def)


text \<open>
  Where the pose read of line 106 returns, every path is balanced: the trace of the call
  has as many \<^verbatim>\<open>unlock\<close>s as successful \<^verbatim>\<open>try_lock\<close>s.
\<close>

lemma unlock_matches_try_lock_when_pose_returns:
  assumes "GetTransform env = Inr pose" and "TickRssSensor env timestamp s = Inr (data, s', tr)"
  shows "count_list tr Unlock = count_list tr (TryLock True)"
  using assms
  by (auto simp: tick_defs split: sum.splits fault.splits prod.splits if_splits)

section \<open>The skip path\<close>




section \<open>The mutex and the handler\<close>

text \<open>
  C2. The property: in every execution of \<^verbatim>\<open>TickRssSensor\<close> the mutex is unlocked
  exactly once for each successful \<^verbatim>\<open>try_lock\<close> and never without one, on every exit
  path. The code breaks it: the \<^verbatim>\<open>try\<close> block reaches to line 108, past the
  \<^verbatim>\<open>unlock\<close> of line 73, and the handler of lines 109--114 unlocks whatever happened
  before. When the pose read of line 106 raises, a tick that took the free mutex unlocks it
  twice for its one successful \<^verbatim>\<open>try_lock\<close>; and a tick that found the mutex held, whose
  \<^verbatim>\<open>try_lock\<close> failed, unlocks the mutex of the evaluation in flight, which is free
  afterwards.
\<close>

theorem handler_unlocks_unowned_mutex:
  "TickRssSensor env_pose_throws timestamp_42 sensor_listening =
     Inr (None, sensor_listening, [TryLock True, Unlock, Cout ''actor destroyed'', Unlock])
   \<and> TickRssSensor env_pose_throws timestamp_42 (sensor_listening\<lparr>processing_lock := True\<rparr>) =
     Inr (None, sensor_listening, [TryLock False, Cout ''actor destroyed'', Unlock])"
  by (simp add: tick_defs guarded_calls_def translate_def ProperResponse_default_def
      env_pose_throws_def env_ok_def sensor_listening_def)

section \<open>One run of the tick closure\<close>

lemma tick_closure_dead:
  "objects st (weak_self c) = None \<Longrightarrow> tick_closure env c snapshot st = Inr st"
  by (simp add: tick_closure_def)

lemma OnTick_dead:
  "\<forall>c \<in> set cs. objects st (weak_self c) = None \<Longrightarrow> OnTick env snapshot cs st = Inr st"
  by (induction cs) (simp_all add: tick_closure_dead)

lemma tick_closure_ok:
  assumes "objects st (weak_self c) = Some s" and "\<not> processing_lock s"
    and "guarded_calls env (GetTimestamp snapshot) s = Inr (res, resp, acc, vel)"
    and "GetTransform env = Inr pose"
  shows "tick_closure env c snapshot st =
    Inr (st\<lparr>events := events st @ [TryLock True, Unlock, Invoke (cb c)
       \<lparr>rss_frame = frame (GetTimestamp snapshot),
        rss_elapsed_seconds = elapsed_seconds (GetTimestamp snapshot),
        rss_transform = pose, rss_success = res,
        rss_longitudinal_response = translate_longitudinal (longitudinalResponse resp),
        rss_lateral_response_right = translate_lateral (lateralResponseRight resp),
        rss_lateral_response_left = translate_lateral (lateralResponseLeft resp),
        rss_acceleration_restriction = acc, rss_ego_velocity = vel\<rparr>]\<rparr>)"
  using assms(1) by (simp add: tick_closure_def TickRssSensor_ok [OF assms(2-4)] map_upd_triv)

lemma tick_closure_fault:
  assumes "objects st (weak_self c) = Some s" and "\<not> processing_lock s"
    and "guarded_calls env (GetTimestamp snapshot) s = Inl (std_exception w)"
  shows "tick_closure env c snapshot st =
    Inr (st\<lparr>events := events st @ [TryLock True, Cout w, Unlock]\<rparr>)"
  using assms(1) by (simp add: tick_closure_def TickRssSensor_fault [OF assms(2-3)] map_upd_triv)

section \<open>A fault of the evaluation\<close>

text \<open>
  C4. When a call of the guarded region (\<^verbatim>\<open>GetWorld\<close>, \<^verbatim>\<open>GetActors\<close>, \<^verbatim>\<open>Filter\<close> or
  \<^verbatim>\<open>checkObjects\<close>) raises during a tick that took the mutex, \<^verbatim>\<open>TickRssSensor\<close>
  prints the exception's message, unlocks the mutex (once, after the one successful
  \<^verbatim>\<open>try_lock\<close>) and returns null, leaving the sensor as it was, mutex free. The closure
  then invokes no callback: the run adds those three events and nothing else, so the
  listening flag, the store and the subscriptions are what they were.
\<close>

theorem evaluation_fault_absorbed:
  assumes "objects st (weak_self c) = Some s" and "\<not> processing_lock s"
    and "guarded_calls env (GetTimestamp snapshot) s = Inl (std_exception w)"
  shows "TickRssSensor env (GetTimestamp snapshot) s = Inr (None, s, [TryLock True, Cout w, Unlock])
    \<and> tick_closure env c snapshot st =
        Inr (st\<lparr>events := events st @ [TryLock True, Cout w, Unlock]\<rparr>)"
  using TickRssSensor_fault [OF assms(2,3)] tick_closure_fault [OF assms] by simp

theorem evaluation_fault_absorbed_witness:
  "objects system_listening (weak_self \<lparr>cb = 7, weak_self = 0\<rparr>) = Some sensor_listening
   \<and> \<not> processing_lock sensor_listening
   \<and> guarded_calls env_check_throws (GetTimestamp snapshot_42) sensor_listening =
       Inl (std_exception ''checkObjects failed'')
   \<and> TickRssSensor env_check_throws (GetTimestamp snapshot_42) sensor_listening =
       Inr (None, sensor_listening, [TryLock True, Cout ''checkObjects failed'', Unlock])
   \<and> tick_closure env_check_throws \<lparr>cb = 7, weak_self = 0\<rparr> snapshot_42 system_listening =
       Inr (system_listening\<lparr>events :=
         [LogDebug ''sensor.other.rss: subscribing to tick event'', TryLock True,
          Cout ''checkObjects failed'', Unlock]\<rparr>)"
proof -
  have obj: "objects system_listening (weak_self \<lparr>cb = 7, weak_self = 0\<rparr>) = Some sensor_listening"
    by (simp add: system_listening_def)
  have free: "\<not> processing_lock sensor_listening"
    by (simp add: sensor_listening_def)
  have thrown: "guarded_calls env_check_throws (GetTimestamp snapshot_42) sensor_listening =
      Inl (std_exception ''checkObjects failed'')"
    by (simp add: guarded_calls_def env_check_throws_def env_ok_def sensor_listening_def)
  have "events system_listening = [LogDebug ''sensor.other.rss: subscribing to tick event'']"
    by (simp add: system_listening_def)
  with evaluation_fault_absorbed [OF obj free thrown] obj free thrown
  show ?thesis by simp
qed

section \<open>A tick after the sensor is gone\<close>

text \<open>
  C5. A registered closure whose weak pointer no longer resolves (the sensor is destroyed)
  returns without doing anything: no evaluation, no callback, no event, no fault; the
  system is unchanged.
\<close>

theorem tick_after_destruction_is_noop:
  assumes "objects st (weak_self c) = None"
  shows "tick_closure env c snapshot st = Inr st"
  using assms by (rule tick_closure_dead)

theorem tick_after_destruction_is_noop_witness:
  "objects (system_listening\<lparr>objects := (objects system_listening)(0 := None)\<rparr>)
      (weak_self \<lparr>cb = 7, weak_self = 0\<rparr>) = None
   \<and> tick_closure env_ok \<lparr>cb = 7, weak_self = 0\<rparr> snapshot_42
        (system_listening\<lparr>objects := (objects system_listening)(0 := None)\<rparr>) =
       Inr (system_listening\<lparr>objects := (objects system_listening)(0 := None)\<rparr>)"
proof -
  have gone: "objects (system_listening\<lparr>objects := (objects system_listening)(0 := None)\<rparr>)
      (weak_self \<lparr>cb = 7, weak_self = 0\<rparr>) = None"
    by simp
  from tick_after_destruction_is_noop [OF gone] gone show ?thesis by simp
qed

section \<open>\<^verbatim>\<open>Listen\<close> while listening\<close>

text \<open>
  C9. \<^verbatim>\<open>Listen\<close> on a sensor that is already listening logs the error ``already
  listening'' and returns: the store (flag, map and backend of the sensor included) and the
  list of subscriptions are unchanged, only the log has one more entry.
\<close>

theorem listen_while_listening_only_logs:
  assumes "objects st self = Some s" and "is_listening s"
  shows "Listen env self callback st =
    Inr (st\<lparr>events := events st @ [LogError (display_id s @ '': already listening'')]\<rparr>)"
  using assms by (simp add: Listen_def)

theorem listen_while_listening_only_logs_witness:
  "objects system_listening 0 = Some sensor_listening \<and> is_listening sensor_listening
   \<and> Listen env_ok 0 8 system_listening =
       Inr (system_listening\<lparr>events :=
         [LogDebug ''sensor.other.rss: subscribing to tick event'',
          LogError ''sensor.other.rss: already listening'']\<rparr>)"
proof -
  have obj: "objects system_listening 0 = Some sensor_listening"
    by (simp add: system_listening_def)
  have on: "is_listening sensor_listening"
    by (simp add: sensor_listening_def)
  have "events system_listening = [LogDebug ''sensor.other.rss: subscribing to tick event'']"
    and "display_id sensor_listening = ''sensor.other.rss''"
    by (simp_all add: system_listening_def sensor_listening_def)
  with listen_while_listening_only_logs [OF obj on, of env_ok 8] obj on
  show ?thesis by simp
qed


section \<open>\<^verbatim>\<open>Stop\<close>\<close>

text \<open>\<^verbatim>\<open>Stop\<close> clears the flag and touches nothing else: every subscription stays.\<close>

lemma Stop_keeps_subscriptions: "Stop self st = Inr st' \<Longrightarrow> on_tick st' = on_tick st"
  by (auto simp: Stop_def split: option.splits)

text \<open>
  C3. The property: after \<^verbatim>\<open>Stop\<close> returns the tick handler registered by
  \<^verbatim>\<open>Listen\<close> is unsubscribed, so a later tick starts no evaluation and invokes no
  callback. The code breaks it: after \<^verbatim>\<open>Listen\<close> and \<^verbatim>\<open>Stop\<close> on a fresh sensor
  the flag is cleared, yet the closure registered by \<^verbatim>\<open>Listen\<close> is still subscribed,
  and the next tick runs \<^verbatim>\<open>TickRssSensor\<close> (the mutex is taken and released) and invokes
  the callback with a response.
\<close>

theorem stop_leaves_subscription_running:
  "\<exists>st1 st2 st3.
     Listen env_ok 0 7 system_new = Inr st1 \<and> Stop 0 st1 = Inr st2
     \<and> map_option is_listening (objects st2 0) = Some False
     \<and> on_tick st2 = [\<lparr>cb = 7, weak_self = 0\<rparr>]
     \<and> tick env_ok snapshot_42 st2 = Inr st3
     \<and> events st3 = events st2 @
         [TryLock True, Unlock,
          Invoke 7 \<lparr>rss_frame = 42, rss_elapsed_seconds = 0x3FF6666666666666,
            rss_transform = Transform 0, rss_success = True,
            rss_longitudinal_response = Longitudinal_BrakeMin,
            rss_lateral_response_right = Lateral_None,
            rss_lateral_response_left = Lateral_BrakeMin,
            rss_acceleration_restriction = 5, rss_ego_velocity = 3\<rparr>]"
  by (simp add: Listen_def Stop_def tick_def tick_closure_def tick_defs guarded_calls_def
      translate_def system_new_def RssSensor_new_def env_ok_def snapshot_42_def timestamp_42_def)

section \<open>Ticks, one after the other\<close>

lemma invocations_append: "invocations (xs @ ys) = invocations xs @ invocations ys"
  by (induction xs rule: invocations.induct) simp_all

text \<open>
  With one subscription, each tick of a sequence adds exactly one callback invocation to the
  trace, carrying the frame and the elapsed seconds of that tick.
\<close>

lemma tick_single:
  assumes "on_tick st = [c]" and "objects st (weak_self c) = Some s" and "\<not> processing_lock s"
    and "guarded_calls env (GetTimestamp snapshot) s = Inr checked"
    and "GetTransform env = Inr pose"
  shows "\<exists>d. tick env snapshot st =
        Inr (st\<lparr>events := events st @ [TryLock True, Unlock, Invoke (cb c) d]\<rparr>)
      \<and> rss_frame d = frame (GetTimestamp snapshot)
      \<and> rss_elapsed_seconds d = elapsed_seconds (GetTimestamp snapshot)"
proof -
  obtain res resp acc vel where "checked = (res, resp, acc, vel)" by (cases checked)
  with assms(4) have "guarded_calls env (GetTimestamp snapshot) s = Inr (res, resp, acc, vel)"
    by simp
  from tick_closure_ok [OF assms(2,3) this assms(5)] assms(1)
  obtain d where "tick env snapshot st =
        Inr (st\<lparr>events := events st @ [TryLock True, Unlock, Invoke (cb c) d]\<rparr>)"
    and "rss_frame d = frame (GetTimestamp snapshot)"
    and "rss_elapsed_seconds d = elapsed_seconds (GetTimestamp snapshot)"
    by (simp add: tick_def)
  then show ?thesis by blast
qed

lemma deliver_single_subscription:
  assumes "on_tick st = [c]" and "objects st (weak_self c) = Some s" and "\<not> processing_lock s"
    and "\<forall>(env, snapshot) \<in> set ticks.
           (\<exists>checked. guarded_calls env (GetTimestamp snapshot) s = Inr checked)
           \<and> (\<exists>pose. GetTransform env = Inr pose)"
  shows "\<exists>new. deliver ticks st = Inr (st\<lparr>events := events st @ new\<rparr>)
      \<and> map (\<lambda>(f, d). (f, rss_frame d, rss_elapsed_seconds d)) (invocations new) =
        map (\<lambda>(env, snapshot). (cb c, frame (GetTimestamp snapshot),
               elapsed_seconds (GetTimestamp snapshot))) ticks"
  using assms
proof (induction ticks arbitrary: st)
  case Nil
  then show ?case by (auto intro: exI [of _ "[]"])
next
  case (Cons t ticks)
  obtain env snapshot where t: "t = (env, snapshot)" by (cases t)
  from Cons.prems(4) t obtain checked pose
    where ok: "guarded_calls env (GetTimestamp snapshot) s = Inr checked" "GetTransform env = Inr pose"
    by auto
  from tick_single [OF Cons.prems(1-3) ok] obtain d
    where step: "tick env snapshot st =
        Inr (st\<lparr>events := events st @ [TryLock True, Unlock, Invoke (cb c) d]\<rparr>)"
      and d: "rss_frame d = frame (GetTimestamp snapshot)"
        "rss_elapsed_seconds d = elapsed_seconds (GetTimestamp snapshot)"
    by blast
  let ?st1 = "st\<lparr>events := events st @ [TryLock True, Unlock, Invoke (cb c) d]\<rparr>"
  have "on_tick ?st1 = [c]" "objects ?st1 (weak_self c) = Some s"
    using Cons.prems(1,2) by simp_all
  from Cons.IH [OF this Cons.prems(3)] Cons.prems(4) obtain new
    where rest: "deliver ticks ?st1 = Inr (?st1\<lparr>events := events ?st1 @ new\<rparr>)"
      and inv: "map (\<lambda>(f, d). (f, rss_frame d, rss_elapsed_seconds d)) (invocations new) =
        map (\<lambda>(env, snapshot). (cb c, frame (GetTimestamp snapshot),
               elapsed_seconds (GetTimestamp snapshot))) ticks"
    by auto
  show ?case
  proof (intro exI conjI)
    show "deliver (t # ticks) st =
        Inr (st\<lparr>events := events st @ ([TryLock True, Unlock, Invoke (cb c) d] @ new)\<rparr>)"
      using step rest t by simp
    show "map (\<lambda>(f, d). (f, rss_frame d, rss_elapsed_seconds d))
          (invocations ([TryLock True, Unlock, Invoke (cb c) d] @ new)) =
        map (\<lambda>(env, snapshot). (cb c, frame (GetTimestamp snapshot),
               elapsed_seconds (GetTimestamp snapshot))) (t # ticks)"
      using inv d t by simp
  qed
qed


text \<open>
  C7, as claimed: with the mutex free and the evaluation not faulting, each tick yields
  exactly one response. It does not when the pose read of line 106 raises after the
  evaluation has returned: the handler of lines 109--114 catches the exception and the tick
  yields null.
\<close>

theorem each_tick_counterexample:
  "guarded_calls env_pose_throws timestamp_42 sensor_listening =
     Inr (True, \<lparr>longitudinalResponse = ad_rss_Longitudinal_BrakeMin,
            lateralResponseRight = ad_rss_Lateral_None,
            lateralResponseLeft = ad_rss_Lateral_BrakeMin\<rparr>, 5, 3)
   \<and> processing_lock sensor_listening = False
   \<and> run_ticks [(env_pose_throws, timestamp_42)] sensor_listening =
       Inr ([None], sensor_listening)"
  by (simp add: tick_defs guarded_calls_def translate_def
      env_pose_throws_def env_ok_def sensor_listening_def)

text \<open>
  C7, amended. The mutex is free, and ticks are delivered one after the other; in each, every
  call of the evaluation returns, and so does the pose read of line 106. Then every call of
  \<^verbatim>\<open>TickRssSensor\<close> returns exactly one response (never null, never a fault), the
  responses carry, in order, the frame and the elapsed seconds of their tick's timestamp,
  and the sensor is afterwards as before, mutex free.
\<close>

theorem each_tick_yields_one_response:
  assumes "\<not> processing_lock s"
    and "\<forall>(env, timestamp) \<in> set ticks.
           (\<exists>checked. guarded_calls env timestamp s = Inr checked)
           \<and> (\<exists>pose. GetTransform env = Inr pose)"
  shows "\<exists>ds. run_ticks ticks s = Inr (map Some ds, s)
      \<and> map (\<lambda>d. (rss_frame d, rss_elapsed_seconds d)) ds =
        map (\<lambda>(env, timestamp). (frame timestamp, elapsed_seconds timestamp)) ticks"
  using assms(2)
proof (induction ticks)
  case Nil
  then show ?case by simp
next
  case (Cons t ticks)
  obtain env timestamp where t: "t = (env, timestamp)" by (cases t)
  from Cons.prems t obtain res resp acc vel pose
    where ok: "guarded_calls env timestamp s = Inr (res, resp, acc, vel)"
      and pose: "GetTransform env = Inr pose"
    by auto
  let ?d = "\<lparr>rss_frame = frame timestamp, rss_elapsed_seconds = elapsed_seconds timestamp,
      rss_transform = pose, rss_success = res,
      rss_longitudinal_response = translate_longitudinal (longitudinalResponse resp),
      rss_lateral_response_right = translate_lateral (lateralResponseRight resp),
      rss_lateral_response_left = translate_lateral (lateralResponseLeft resp),
      rss_acceleration_restriction = acc, rss_ego_velocity = vel\<rparr>"
  from Cons.IH Cons.prems obtain ds where rest: "run_ticks ticks s = Inr (map Some ds, s)"
    and stamps: "map (\<lambda>d. (rss_frame d, rss_elapsed_seconds d)) ds =
        map (\<lambda>(env, timestamp). (frame timestamp, elapsed_seconds timestamp)) ticks"
    by auto
  have "run_ticks (t # ticks) s = Inr (map Some (?d # ds), s)"
    using TickRssSensor_ok [OF assms(1) ok pose] rest t by simp
  moreover have "map (\<lambda>d. (rss_frame d, rss_elapsed_seconds d)) (?d # ds) =
      map (\<lambda>(env, timestamp). (frame timestamp, elapsed_seconds timestamp)) (t # ticks)"
    using stamps t by simp
  ultimately show ?case by blast
qed

theorem each_tick_yields_one_response_witness:
  "\<not> processing_lock sensor_listening
   \<and> guarded_calls env_ok timestamp_42 sensor_listening =
       guarded_calls env_ok timestamp_43 sensor_listening
   \<and> guarded_calls env_ok timestamp_43 sensor_listening =
       Inr (True, \<lparr>longitudinalResponse = ad_rss_Longitudinal_BrakeMin,
              lateralResponseRight = ad_rss_Lateral_None,
              lateralResponseLeft = ad_rss_Lateral_BrakeMin\<rparr>, 5, 3)
   \<and> GetTransform env_ok = Inr (Transform 0)
   \<and> (\<exists>ds. run_ticks [(env_ok, timestamp_42), (env_ok, timestamp_43)] sensor_listening =
          Inr (map Some ds, sensor_listening)
        \<and> map (\<lambda>d. (rss_frame d, rss_elapsed_seconds d)) ds =
          [(42, 0x3FF6666666666666), (43, 0x3FF8000000000000)])"
proof -
  have free: "\<not> processing_lock sensor_listening"
    by (simp add: sensor_listening_def)
  have g42: "guarded_calls env_ok timestamp_42 sensor_listening =
       guarded_calls env_ok timestamp_43 sensor_listening"
    by (simp add: guarded_calls_def env_ok_def sensor_listening_def)
  have g43: "guarded_calls env_ok timestamp_43 sensor_listening =
       Inr (True, \<lparr>longitudinalResponse = ad_rss_Longitudinal_BrakeMin,
              lateralResponseRight = ad_rss_Lateral_None,
              lateralResponseLeft = ad_rss_Lateral_BrakeMin\<rparr>, 5, 3)"
    by (simp add: guarded_calls_def env_ok_def sensor_listening_def)
  have pose: "GetTransform env_ok = Inr (Transform 0)"
    by (simp add: env_ok_def)
  have all: "\<forall>(env, timestamp) \<in> set [(env_ok, timestamp_42), (env_ok, timestamp_43)].
           (\<exists>checked. guarded_calls env timestamp sensor_listening = Inr checked)
           \<and> (\<exists>pose. GetTransform env = Inr pose)"
    using g42 g43 pose by auto
  from each_tick_yields_one_response [OF free all]
  have "\<exists>ds. run_ticks [(env_ok, timestamp_42), (env_ok, timestamp_43)] sensor_listening =
          Inr (map Some ds, sensor_listening)
        \<and> map (\<lambda>d. (rss_frame d, rss_elapsed_seconds d)) ds =
          [(42, 0x3FF6666666666666), (43, 0x3FF8000000000000)]"
    by (simp add: timestamp_42_def timestamp_43_def)
  with free g42 g43 pose show ?thesis by blast
qed

section \<open>The dynamics accessors and the backend\<close>









section \<open>\<^verbatim>\<open>Listen\<close>, \<^verbatim>\<open>Stop\<close>, \<^verbatim>\<open>Listen\<close>\<close>

lemma Listen_fresh:
  assumes "objects st self = Some s" and "\<not> is_listening s" and "parent s = Some p"
    and "GetWorld env = Inr world" and "GetMap env world = Inr m"
  shows "Listen env self callback st =
    Inr (st\<lparr>objects := (objects st)(self \<mapsto>
              s\<lparr>map_ptr := m, mRssCheck := Some (RssCheck_new env), is_listening := True\<rparr>),
           on_tick := on_tick st @ [\<lparr>cb = callback, weak_self = self\<rparr>],
           events := events st @ [LogDebug (display_id s @ '': subscribing to tick event'')]\<rparr>)"
  using assms by (simp add: Listen_def)

text \<open>
  C10. On an idle sensor attached to a vehicle, \<^verbatim>\<open>Listen(cb1); Stop(); Listen(cb2)\<close> all
  return (the check of line 27 passes again after \<^verbatim>\<open>Stop\<close>) and leave two more
  subscriptions than before, the first still registered beside the second, both referring to
  this sensor. If there was none before, a following tick whose evaluation and pose read
  return runs \<^verbatim>\<open>TickRssSensor\<close> twice (the mutex is taken and released twice) and
  delivers a response to \<open>cb1\<close> and then to \<open>cb2\<close>.
\<close>

theorem listen_stop_listen_subscribes_twice:
  assumes "objects st self = Some s" and "\<not> is_listening s" and "parent s = Some p"
    and "GetWorld env = Inr world" and "GetMap env world = Inr m"
  shows "\<exists>st1 st2 st3.
     Listen env self cb1 st = Inr st1 \<and> Stop self st1 = Inr st2
     \<and> Listen env self cb2 st2 = Inr st3
     \<and> on_tick st3 = on_tick st @ [\<lparr>cb = cb1, weak_self = self\<rparr>, \<lparr>cb = cb2, weak_self = self\<rparr>]
     \<and> objects st3 self =
         Some (s\<lparr>map_ptr := m, mRssCheck := Some (RssCheck_new env), is_listening := True\<rparr>)
     \<and> (on_tick st = [] \<longrightarrow> \<not> processing_lock s \<longrightarrow>
         guarded_calls env' (GetTimestamp snapshot)
           (s\<lparr>map_ptr := m, mRssCheck := Some (RssCheck_new env), is_listening := True\<rparr>) =
           Inr checked \<longrightarrow>
         GetTransform env' = Inr pose \<longrightarrow>
         (\<exists>d. tick env' snapshot st3 =
            Inr (st3\<lparr>events := events st3 @
              [TryLock True, Unlock, Invoke cb1 d, TryLock True, Unlock, Invoke cb2 d]\<rparr>)))"
proof -
  let ?s3 = "s\<lparr>map_ptr := m, mRssCheck := Some (RssCheck_new env), is_listening := True\<rparr>"
  let ?c1 = "\<lparr>cb = cb1, weak_self = self\<rparr>" and ?c2 = "\<lparr>cb = cb2, weak_self = self\<rparr>"
  let ?log = "LogDebug (display_id s @ '': subscribing to tick event'')"
  let ?st1 = "st\<lparr>objects := (objects st)(self \<mapsto> ?s3), on_tick := on_tick st @ [?c1],
    events := events st @ [?log]\<rparr>"
  let ?st2 = "?st1\<lparr>objects := (objects ?st1)(self \<mapsto> ?s3\<lparr>is_listening := False\<rparr>)\<rparr>"
  let ?st3 = "?st2\<lparr>objects := (objects ?st2)(self \<mapsto> ?s3), on_tick := on_tick ?st2 @ [?c2],
    events := events ?st2 @ [?log]\<rparr>"
  have first: "Listen env self cb1 st = Inr ?st1"
    by (rule Listen_fresh [OF assms])
  have stopped: "Stop self ?st1 = Inr ?st2"
    by (simp add: Stop_def)
  have "Listen env self cb2 ?st2 =
      Inr (?st2\<lparr>objects := (objects ?st2)(self \<mapsto>
              (?s3\<lparr>is_listening := False\<rparr>)\<lparr>map_ptr := m, mRssCheck := Some (RssCheck_new env),
                 is_listening := True\<rparr>),
           on_tick := on_tick ?st2 @ [?c2],
           events := events ?st2 @
             [LogDebug (display_id (?s3\<lparr>is_listening := False\<rparr>) @ '': subscribing to tick event'')]\<rparr>)"
    by (rule Listen_fresh [where p = p and world = world]) (simp_all add: assms)
  then have second: "Listen env self cb2 ?st2 = Inr ?st3"
    by simp
  have subs: "on_tick ?st3 = on_tick st @ [?c1, ?c2]"
    by simp
  have obj: "objects ?st3 self = Some ?s3"
    by simp
  have ticked: "\<exists>d. tick env' snapshot ?st3 =
      Inr (?st3\<lparr>events := events ?st3 @
        [TryLock True, Unlock, Invoke cb1 d, TryLock True, Unlock, Invoke cb2 d]\<rparr>)"
    if none: "on_tick st = []" and free: "\<not> processing_lock s"
      and ok: "guarded_calls env' (GetTimestamp snapshot) ?s3 = Inr checked"
      and pose: "GetTransform env' = Inr pose"
  proof -
    obtain res resp acc vel where "checked = (res, resp, acc, vel)" by (cases checked)
    with ok have ok': "guarded_calls env' (GetTimestamp snapshot) ?s3 = Inr (res, resp, acc, vel)"
      by simp
    have free': "\<not> processing_lock ?s3" using free by simp
    let ?d = "\<lparr>rss_frame = frame (GetTimestamp snapshot),
        rss_elapsed_seconds = elapsed_seconds (GetTimestamp snapshot),
        rss_transform = pose, rss_success = res,
        rss_longitudinal_response = translate_longitudinal (longitudinalResponse resp),
        rss_lateral_response_right = translate_lateral (lateralResponseRight resp),
        rss_lateral_response_left = translate_lateral (lateralResponseLeft resp),
        rss_acceleration_restriction = acc, rss_ego_velocity = vel\<rparr>"
    let ?st4 = "?st3\<lparr>events := events ?st3 @ [TryLock True, Unlock, Invoke cb1 ?d]\<rparr>"
    have one: "tick_closure env' ?c1 snapshot ?st3 = Inr ?st4"
      using tick_closure_ok [of ?st3 ?c1 ?s3, OF _ free' ok' pose] by simp
    have two: "tick_closure env' ?c2 snapshot ?st4 =
        Inr (?st4\<lparr>events := events ?st4 @ [TryLock True, Unlock, Invoke cb2 ?d]\<rparr>)"
      using tick_closure_ok [of ?st4 ?c2 ?s3, OF _ free' ok' pose] by simp
    have "tick env' snapshot ?st3 =
        Inr (?st3\<lparr>events := events ?st3 @
          [TryLock True, Unlock, Invoke cb1 ?d, TryLock True, Unlock, Invoke cb2 ?d]\<rparr>)"
      using one two none by (simp add: tick_def)
    then show ?thesis by blast
  qed
  show ?thesis
    using first stopped second subs obj ticked by blast
qed


theorem listen_stop_listen_subscribes_twice_witness:
  "objects system_new 0 = Some (RssSensor_new ''sensor.other.rss'' (Some (Actor 1)))
   \<and> \<not> is_listening (RssSensor_new ''sensor.other.rss'' (Some (Actor 1)))
   \<and> parent (RssSensor_new ''sensor.other.rss'' (Some (Actor 1))) = Some (Actor 1)
   \<and> GetWorld env_ok = Inr (World 0)
   \<and> GetMap env_ok (World 0) = Inr (Some (MapPtr 0))
   \<and> (\<exists>st1 st2 st3 d.
        Listen env_ok 0 7 system_new = Inr st1 \<and> Stop 0 st1 = Inr st2
        \<and> Listen env_ok 0 8 st2 = Inr st3
        \<and> on_tick st3 = [\<lparr>cb = 7, weak_self = 0\<rparr>, \<lparr>cb = 8, weak_self = 0\<rparr>]
        \<and> tick env_ok snapshot_42 st3 =
            Inr (st3\<lparr>events := events st3 @
              [TryLock True, Unlock, Invoke 7 d, TryLock True, Unlock, Invoke 8 d]\<rparr>))"
proof -
  let ?s = "RssSensor_new ''sensor.other.rss'' (Some (Actor 1))"
  let ?verdict = "(True, \<lparr>longitudinalResponse = ad_rss_Longitudinal_BrakeMin,
      lateralResponseRight = ad_rss_Lateral_None,
      lateralResponseLeft = ad_rss_Lateral_BrakeMin\<rparr>, 5 :: int, 3 :: int)"
  have obj: "objects system_new 0 = Some ?s"
    by (simp add: system_new_def)
  have idle: "\<not> is_listening ?s" and attached: "parent ?s = Some (Actor 1)"
    and free: "\<not> processing_lock ?s"
    by (simp_all add: RssSensor_new_def)
  have world: "GetWorld env_ok = Inr (World 0)"
    and m: "GetMap env_ok (World 0) = Inr (Some (MapPtr 0))"
    and pose: "GetTransform env_ok = Inr (Transform 0)"
    by (simp_all add: env_ok_def)
  have none: "on_tick system_new = []"
    by (simp add: system_new_def)
  have ok: "guarded_calls env_ok (GetTimestamp snapshot_42)
      (?s\<lparr>map_ptr := Some (MapPtr 0), mRssCheck := Some (RssCheck_new env_ok),
          is_listening := True\<rparr>) = Inr ?verdict"
    by (simp add: guarded_calls_def env_ok_def)
  from listen_stop_listen_subscribes_twice [OF obj idle attached world m,
      of 7 8 env_ok snapshot_42 ?verdict "Transform 0"]
  obtain st1 st2 st3 where calls: "Listen env_ok 0 7 system_new = Inr st1" "Stop 0 st1 = Inr st2"
      "Listen env_ok 0 8 st2 = Inr st3"
    and subs: "on_tick st3 = on_tick system_new @ [\<lparr>cb = 7, weak_self = 0\<rparr>, \<lparr>cb = 8, weak_self = 0\<rparr>]"
    and ticked: "on_tick system_new = [] \<longrightarrow>
      \<not> processing_lock ?s \<longrightarrow>
      guarded_calls env_ok (GetTimestamp snapshot_42)
        (?s\<lparr>map_ptr := Some (MapPtr 0), mRssCheck := Some (RssCheck_new env_ok),
            is_listening := True\<rparr>) = Inr ?verdict \<longrightarrow>
      GetTransform env_ok = Inr (Transform 0) \<longrightarrow>
      (\<exists>d. tick env_ok snapshot_42 st3 =
         Inr (st3\<lparr>events := events st3 @
           [TryLock True, Unlock, Invoke 7 d, TryLock True, Unlock, Invoke 8 d]\<rparr>))"
    by blast
  from ticked none free ok pose obtain d where "tick env_ok snapshot_42 st3 =
      Inr (st3\<lparr>events := events st3 @
        [TryLock True, Unlock, Invoke 7 d, TryLock True, Unlock, Invoke 8 d]\<rparr>)"
    by blast
  moreover from subs none
  have "on_tick st3 = [\<lparr>cb = 7, weak_self = 0\<rparr>, \<lparr>cb = 8, weak_self = 0\<rparr>]"
    by simp
  ultimately show ?thesis
    using obj idle attached world m calls by blast
qed


end
